theory Spec2Isabelle
  imports Complex_Main "HOL-Library.Product_Lexorder"
begin

section \<open>Data model\<close>

text \<open>
  A position is a pair of Python integers \<open>(x, y)\<close>, the origin being the top left corner
  of the image. A colour is the RGB triple the pixel accessor returns after the image was
  converted to RGB.
\<close>

type_synonym position = "int \<times> int"

type_synonym colour = "int \<times> int \<times> int"

text \<open>
  The image is opened, converted and loaded by the imaging library; the program only uses
  its \<open>size\<close> and its pixel accessor. The accessor is taken as a parameter: \<open>None\<close>
  stands for the \<open>IndexError\<close> it raises for a coordinate it does not accept.
\<close>

record image =
  width :: int
  height :: int
  pixels :: "position \<Rightarrow> colour option"

text \<open>
  Modelled from the spec: the pixel accessor of an image given by its rows, which the
  imaging library (not part of the repository) provides. It returns the colour at a
  position and signals a bounds failure outside \<open>[0, width) \<times> [0, height)\<close>.
\<close>

definition raster :: "colour list list \<Rightarrow> image" where
  "raster rows =
     \<lparr>width = (case rows of [] \<Rightarrow> 0 | r # _ \<Rightarrow> int (length r)),
      height = int (length rows),
      pixels = (\<lambda>(x, y).
        if 0 \<le> y \<and> y < int (length rows) \<and> 0 \<le> x \<and> x < int (length (rows ! nat y))
        then Some (rows ! nat y ! nat x) else None)\<rparr>"

datatype error = IndexError | KeyError

text \<open>
  The dictionary \<open>quadrants\<close> maps a pair of signs to the first rain position found for
  it. It is kept as an association list in insertion order; keys are only ever added when
  absent, so its length is the \<open>len\<close> of the dictionary.
\<close>

type_synonym quadrants = "((int \<times> int) \<times> position) list"

text \<open>
  What one call leaves behind: the value returned or the exception raised, the positions
  at which the pixel accessor was read (in order), and the dictionary at the end.
\<close>

record run =
  outcome :: "error + int list"
  reads :: "position list"
  recorded :: quadrants

section \<open>The program\<close>

subsection \<open>\<open>distance\<close>\<close>

text \<open>
  \<open>math.sqrt\<close> works on doubles. The nearest whole number to \<open>y\<close>, a tie going to the
  even one:
\<close>

definition round_half_even :: "real \<Rightarrow> int" where
  "round_half_even y =
     (let f = \<lfloor>y\<rfloor> in
      if y - real_of_int f < 1 / 2 then f
      else if 1 / 2 < y - real_of_int f then f + 1
      else if even f then f else f + 1)"

text \<open>
  The double nearest to a real number (IEEE 754 binary64, round to nearest, ties to even):
  when \<open>\<bar>x\<bar>\<close> lies between \<open>2 ^ e\<close> and \<open>2 ^ (e + 1)\<close>, the doubles around \<open>x\<close> are the
  multiples of \<open>2 ^ (e - 52)\<close>, which gives 53 significant bits. The exponent is not
  limited: the values met here are 0 or at least 1, and an int too large for a double
  (from about \<open>2 ^ 1024\<close> on, where the conversion raises \<open>OverflowError\<close>) is no
  coordinate of an image.
\<close>

definition to_double :: "real \<Rightarrow> real" where
  "to_double x =
     (if x = 0 then 0
      else let e = \<lfloor>log 2 \<bar>x\<bar>\<rfloor>; u = 2 powr (real_of_int e - 52)
           in sgn x * real_of_int (round_half_even (\<bar>x\<bar> / u)) * u)"

text \<open>
  The sum of the squares is computed on Python integers and is exact; \<open>math.sqrt\<close> converts
  it to the nearest double and returns the correctly rounded square root of that double.
\<close>

definition distance :: "position \<Rightarrow> position \<Rightarrow> real" where
  "distance a b =
     to_double (sqrt (to_double (real_of_int ((fst a - fst b)\<^sup>2 + (snd a - snd b)\<^sup>2))))"

subsection \<open>\<open>rain_colours\<close>\<close>

text \<open>The base class knows no rain colour; the Met Eireann subclass lists fourteen.\<close>

definition rain_colours :: "colour list" where
  "rain_colours = []"

definition met_eireann_rain_colours :: "colour list" where
  "met_eireann_rain_colours =
     [(230, 227, 230), (188, 189, 188), (239, 0, 0), (255, 153, 153), (255, 85, 255),
      (132, 0, 132), (255, 255, 140), (239, 243, 0), (0, 211, 0), (82, 243, 123),
      (0, 254, 254), (89, 169, 254), (81, 72, 254), (0, 0, 187)]"

subsection \<open>\<open>search_outwards\<close>\<close>

text \<open>
  One pass through the body of the \<open>while\<close> loop after the \<open>yield\<close>: the new values of
  \<open>x\<close> and \<open>y\<close>. When no branch applies, nothing changes.
\<close>

definition advance :: "int \<Rightarrow> int \<Rightarrow> int \<Rightarrow> int \<Rightarrow> position \<Rightarrow> position" where
  "advance x_min x_max y_min y_max p =
     (let x = fst p; y = snd p in
      if y = y_min \<or> y = y_max then
        (if x = x_max then (x_min, y + 1) else (x + 1, y))
      else if x = x_min then (x_max, y)
      else if x = x_max then (x_min, y + 1)
      else (x, y))"

text \<open>
  The \<open>while\<close> loop, as the list of the positions it yields. The loop need not end from
  an arbitrary \<open>(x, y)\<close> (strictly inside the square nothing changes), so not returning is
  the value \<open>None\<close>.
\<close>

partial_function (option) ring_loop ::
  "int \<Rightarrow> int \<Rightarrow> int \<Rightarrow> int \<Rightarrow> position \<Rightarrow> position list option" where
  "ring_loop x_min x_max y_min y_max p =
     (if fst p \<le> x_max \<and> snd p \<le> y_max then
        Option.bind (ring_loop x_min x_max y_min y_max (advance x_min x_max y_min y_max p))
          (\<lambda>rest. Some (p # rest))
      else Some [])"

text \<open>The body of the \<open>for\<close> loop for one value \<open>d\<close> of the loop variable \<open>distance\<close>,
  and the \<open>for\<close> loop over \<open>range(1, max_distance + 1)\<close>.\<close>

definition ring :: "position \<Rightarrow> int \<Rightarrow> position list option" where
  "ring center d =
     (let x_min = fst center - d; x_max = fst center + d;
          y_min = snd center - d; y_max = snd center + d
      in ring_loop x_min x_max y_min y_max (x_min, y_min))"

fun rings :: "position \<Rightarrow> int list \<Rightarrow> position list option" where
  "rings center [] = Some []"
| "rings center (d # ds) =
     Option.bind (ring center d) (\<lambda>ps.
       Option.bind (rings center ds) (\<lambda>rest. Some (ps @ rest)))"

definition search_outwards :: "position \<Rightarrow> int \<Rightarrow> position list option" where
  "search_outwards center max_distance = rings center [1..max_distance]"

subsection \<open>\<open>nearest_rain\<close>\<close>

definition cmp :: "int \<Rightarrow> int \<Rightarrow> int" where
  "cmp a b = (if a < b then - 1 else if a = b then 0 else 1)"

text \<open>
  The body of the \<open>for\<close> loop below the \<open>break\<close>: the pixel is read (and the read logged);
  an \<open>IndexError\<close> is caught and ignored.
\<close>

definition visit ::
  "colour list \<Rightarrow> (position \<Rightarrow> colour option) \<Rightarrow> position \<Rightarrow> position \<Rightarrow>
   quadrants \<times> position list \<Rightarrow> quadrants \<times> position list" where
  "visit colours px position point s =
     (let qs = fst s; rd = snd s @ [point] in
      case px point of
        None \<Rightarrow> (qs, rd)
      | Some c \<Rightarrow>
          if c \<in> set colours then
            (let quadrant = (cmp (fst point) (fst position), cmp (snd point) (snd position))
             in if quadrant \<notin> set (map fst qs) then (qs @ [(quadrant, point)], rd)
                else (qs, rd))
          else (qs, rd))"

fun scan ::
  "colour list \<Rightarrow> (position \<Rightarrow> colour option) \<Rightarrow> position \<Rightarrow> position list \<Rightarrow>
   quadrants \<times> position list \<Rightarrow> quadrants \<times> position list" where
  "scan colours px position [] s = s"
| "scan colours px position (point # rest) s =
     (if length (fst s) \<ge> 4 then s
      else scan colours px position rest (visit colours px position point s))"

text \<open>
  The final loop over \<open>sorted(quadrants)\<close>. \<open>math.floor\<close> yields a number with an
  integral value, kept here as an integer.
\<close>

fun collect :: "quadrants \<Rightarrow> position \<Rightarrow> (int \<times> int) list \<Rightarrow> error + int list" where
  "collect qs position [] = Inr []"
| "collect qs position (quadrant # rest) =
     (case map_of qs quadrant of
        None \<Rightarrow> Inl KeyError
      | Some p \<Rightarrow>
          (case collect qs position rest of
             Inl e \<Rightarrow> Inl e
           | Inr result \<Rightarrow> Inr (\<lfloor>distance p position\<rfloor> # result)))"

text \<open>
  \<open>nearest_rain\<close>, given the rain colours of the class, the position and the loaded
  image. The outer \<open>option\<close> is \<open>None\<close> when the enumeration does not return.
\<close>

definition nearest_rain :: "colour list \<Rightarrow> position \<Rightarrow> image \<Rightarrow> run option" where
  "nearest_rain colours position img =
     (case pixels img position of
        None \<Rightarrow> Some \<lparr>outcome = Inl IndexError, reads = [position], recorded = []\<rparr>
      | Some c \<Rightarrow>
          if c \<in> set colours then
            Some \<lparr>outcome = Inr [0, 0, 0, 0], reads = [position], recorded = []\<rparr>
          else
            Option.bind (search_outwards position (max (width img) (height img)))
              (\<lambda>points.
                 let s = scan colours (pixels img) position points ([], [position])
                 in Some \<lparr>outcome = collect (fst s) position (sort (map fst (fst s))),
                          reads = snd s, recorded = fst s\<rparr>))"

section \<open>Notions used to state the properties\<close>

text \<open>
  The cells of the ring at distance \<open>r\<close>, written out row by row: the top row from left to
  right, then for every row strictly between top and bottom its leftmost and its rightmost
  cell, then the bottom row from left to right.
\<close>

definition ring_cells :: "position \<Rightarrow> int \<Rightarrow> position list" where
  "ring_cells c r =
     map (\<lambda>x. (x, snd c - r)) [fst c - r..fst c + r] @
     concat (map (\<lambda>y. [(fst c - r, y), (fst c + r, y)]) [snd c - r + 1..snd c + r - 1]) @
     map (\<lambda>x. (x, snd c + r)) [fst c - r..fst c + r]"

text \<open>
  The order of a ring as the specification words it: the top edge from left to right, the
  bottom edge from left to right, the left edge from top to bottom without its corners,
  the right edge from top to bottom without its corners.
\<close>

definition edges_in_turn :: "position \<Rightarrow> int \<Rightarrow> position list" where
  "edges_in_turn c r =
     map (\<lambda>x. (x, snd c - r)) [fst c - r..fst c + r] @
     map (\<lambda>x. (x, snd c + r)) [fst c - r..fst c + r] @
     map (\<lambda>y. (fst c - r, y)) [snd c - r + 1..snd c + r - 1] @
     map (\<lambda>y. (fst c + r, y)) [snd c - r + 1..snd c + r - 1]"

text \<open>The perimeter of the axis-aligned square of half-width \<open>r\<close> around \<open>c\<close>.\<close>

definition perimeter :: "position \<Rightarrow> int \<Rightarrow> position set" where
  "perimeter c r =
     {(x, y). fst c - r \<le> x \<and> x \<le> fst c + r \<and> snd c - r \<le> y \<and> y \<le> snd c + r \<and>
              (x = fst c - r \<or> x = fst c + r \<or> y = snd c - r \<or> y = snd c + r)}"

definition chebyshev :: "position \<Rightarrow> position \<Rightarrow> int" where
  "chebyshev c p = max \<bar>fst p - fst c\<bar> \<bar>snd p - snd c\<bar>"

text \<open>
  The result the docstring of \<open>nearest_rain\<close> describes, for a given dictionary: the
  distances for NW, SW, NE and SE in this order, a quadrant without entry left out.
\<close>

definition in_quadrant_order :: "quadrants \<Rightarrow> position \<Rightarrow> int list" where
  "in_quadrant_order qs position =
     concat (map (\<lambda>q. case map_of qs q of None \<Rightarrow> [] | Some p \<Rightarrow> [\<lfloor>distance p position\<rfloor>])
       [(- 1, - 1), (- 1, 1), (1, - 1), (1, 1)])"

subsection \<open>Example images\<close>

definition dry :: colour where
  "dry = (255, 255, 255)"

definition wet :: colour where
  "wet = (0, 0, 187)"

text \<open>Rain in the four corners of a 5 by 5 image.\<close>

definition corners_image :: image where
  "corners_image = raster
     [[wet, dry, dry, dry, wet],
      [dry, dry, dry, dry, dry],
      [dry, dry, dry, dry, dry],
      [dry, dry, dry, dry, dry],
      [wet, dry, dry, dry, wet]]"

text \<open>Rain in the top left corner only.\<close>

definition corner_image :: image where
  "corner_image = raster
     [[wet, dry, dry, dry, dry],
      [dry, dry, dry, dry, dry],
      [dry, dry, dry, dry, dry],
      [dry, dry, dry, dry, dry],
      [dry, dry, dry, dry, dry]]"

text \<open>
  The same, and rain directly north, west, east and south of the middle pixel \<open>(2, 2)\<close>.
\<close>

definition cross_image :: image where
  "cross_image = raster
     [[wet, dry, dry, dry, dry],
      [dry, dry, wet, dry, dry],
      [dry, wet, dry, wet, dry],
      [dry, dry, wet, dry, dry],
      [dry, dry, dry, dry, dry]]"

text \<open>
  A 7 by 7 image with rain north-west \<open>(2, 2)\<close>, directly west \<open>(1, 3)\<close> and south-west
  \<open>(0, 6)\<close> of the middle pixel \<open>(3, 3)\<close>.
\<close>

definition west_image :: image where
  "west_image = raster
     [[dry, dry, dry, dry, dry, dry, dry],
      [dry, dry, dry, dry, dry, dry, dry],
      [dry, dry, wet, dry, dry, dry, dry],
      [dry, wet, dry, dry, dry, dry, dry],
      [dry, dry, dry, dry, dry, dry, dry],
      [dry, dry, dry, dry, dry, dry, dry],
      [wet, dry, dry, dry, dry, dry, dry]]"

text \<open>
  A very wide image with a single rain pixel, in its bottom right corner, seen from the
  top left corner.
\<close>

definition far_image :: image where
  "far_image =
     \<lparr>width = 72000001, height = 12001,
      pixels = (\<lambda>(x, y).
        if 0 \<le> y \<and> y < 12001 \<and> 0 \<le> x \<and> x < 72000001
        then Some (if (x, y) = (72000000, 12000) then wet else dry) else None)\<rparr>"


section \<open>The enumeration returns, and what it returns\<close>

lemma ring_loop_done:
  "\<not> (fst p \<le> x_max \<and> snd p \<le> y_max) \<Longrightarrow> ring_loop x_min x_max y_min y_max p = Some []"
  by (subst ring_loop.simps) auto

lemma ring_loop_step:
  "fst p \<le> x_max \<Longrightarrow> snd p \<le> y_max \<Longrightarrow>
   ring_loop x_min x_max y_min y_max (advance x_min x_max y_min y_max p) = Some rest \<Longrightarrow>
   ring_loop x_min x_max y_min y_max p = Some (p # rest)"
  by (subst ring_loop.simps) simp

lemma ring_loop_row:
  assumes "y = y_min \<or> y = y_max" and "y \<le> y_max" and "x \<le> x_max"
    and "ring_loop x_min x_max y_min y_max (x_min, y + 1) = Some rest"
  shows "ring_loop x_min x_max y_min y_max (x, y) = Some (map (\<lambda>x. (x, y)) [x..x_max] @ rest)"
  using assms(3)
proof (induction "nat (x_max - x)" arbitrary: x)
  case 0
  then have "x = x_max" by simp
  moreover have "advance x_min x_max y_min y_max (x_max, y) = (x_min, y + 1)"
    using assms(1) by (simp add: advance_def)
  ultimately show ?case
    using assms(2,4) by (simp add: ring_loop_step)
next
  case (Suc n)
  then have lt: "x < x_max" by simp
  then have "ring_loop x_min x_max y_min y_max (x + 1, y) =
      Some (map (\<lambda>x. (x, y)) [x + 1..x_max] @ rest)"
    using Suc by simp
  then have "ring_loop x_min x_max y_min y_max (advance x_min x_max y_min y_max (x, y)) =
      Some (map (\<lambda>x. (x, y)) [x + 1..x_max] @ rest)"
    using lt assms(1) by (simp add: advance_def)
  from ring_loop_step[OF _ _ this] show ?case
    using lt assms(2) by (simp add: upto_rec1[of x x_max])
qed

lemma ring_loop_pair:
  assumes "y_min < y" and "y < y_max" and "x_min < x_max"
    and "ring_loop x_min x_max y_min y_max (x_min, y + 1) = Some rest"
  shows "ring_loop x_min x_max y_min y_max (x_min, y) = Some ((x_min, y) # (x_max, y) # rest)"
proof -
  have "advance x_min x_max y_min y_max (x_max, y) = (x_min, y + 1)"
    using assms by (simp add: advance_def)
  with assms have "ring_loop x_min x_max y_min y_max (x_max, y) = Some ((x_max, y) # rest)"
    by (intro ring_loop_step) simp_all
  moreover have "advance x_min x_max y_min y_max (x_min, y) = (x_max, y)"
    using assms by (simp add: advance_def)
  ultimately show ?thesis
    using assms by (intro ring_loop_step) simp_all
qed

lemma ring_loop_sides:
  assumes "y_min < y" and "y \<le> y_max" and "x_min < x_max"
  shows "ring_loop x_min x_max y_min y_max (x_min, y) =
     Some (concat (map (\<lambda>y. [(x_min, y), (x_max, y)]) [y..y_max - 1]) @
           map (\<lambda>x. (x, y_max)) [x_min..x_max])"
  using assms(1,2)
proof (induction "nat (y_max - y)" arbitrary: y)
  case 0
  then have y: "y = y_max" by simp
  have "ring_loop x_min x_max y_min y_max (x_min, y_max + 1) = Some []"
    by (rule ring_loop_done) simp
  then have "ring_loop x_min x_max y_min y_max (x_min, y_max) =
      Some (map (\<lambda>x. (x, y_max)) [x_min..x_max] @ [])"
    using assms(3) by (intro ring_loop_row) simp_all
  then show ?case
    using y by simp
next
  case (Suc n)
  then have lt: "y < y_max" by simp
  then have "ring_loop x_min x_max y_min y_max (x_min, y + 1) =
     Some (concat (map (\<lambda>y. [(x_min, y), (x_max, y)]) [y + 1..y_max - 1]) @
           map (\<lambda>x. (x, y_max)) [x_min..x_max])"
    using Suc by simp
  from ring_loop_pair[OF Suc.prems(1) lt assms(3) this] show ?case
    using lt by (simp add: upto_rec1[of y "y_max - 1"])
qed

lemma ring_eq:
  assumes "1 \<le> r"
  shows "ring c r = Some (ring_cells c r)"
proof -
  have "ring_loop (fst c - r) (fst c + r) (snd c - r) (snd c + r) (fst c - r, snd c - r + 1) =
     Some (concat (map (\<lambda>y. [(fst c - r, y), (fst c + r, y)]) [snd c - r + 1..snd c + r - 1]) @
           map (\<lambda>x. (x, snd c + r)) [fst c - r..fst c + r])"
    using assms by (intro ring_loop_sides) simp_all
  then have "ring_loop (fst c - r) (fst c + r) (snd c - r) (snd c + r) (fst c - r, snd c - r) =
     Some (map (\<lambda>x. (x, snd c - r)) [fst c - r..fst c + r] @
           concat (map (\<lambda>y. [(fst c - r, y), (fst c + r, y)]) [snd c - r + 1..snd c + r - 1]) @
           map (\<lambda>x. (x, snd c + r)) [fst c - r..fst c + r])"
    using assms by (intro ring_loop_row) simp_all
  then show ?thesis
    by (simp add: ring_def ring_cells_def Let_def)
qed

lemma rings_eq:
  "\<forall>r\<in>set ds. 1 \<le> r \<Longrightarrow> rings c ds = Some (concat (map (ring_cells c) ds))"
  by (induction ds) (simp_all add: ring_eq)

lemma search_outwards_eq:
  "search_outwards c D = Some (concat (map (ring_cells c) [1..D]))"
  unfolding search_outwards_def by (rule rings_eq) simp

lemma in_ring_cells:
  "(x, y) \<in> set (ring_cells c r) \<longleftrightarrow>
     (fst c - r \<le> x \<and> x \<le> fst c + r \<and> (y = snd c - r \<or> y = snd c + r)) \<or>
     (snd c - r + 1 \<le> y \<and> y \<le> snd c + r - 1 \<and> (x = fst c - r \<or> x = fst c + r))"
  by (auto simp: ring_cells_def image_iff)

lemma set_ring_cells: "1 \<le> r \<Longrightarrow> set (ring_cells c r) = perimeter c r"
  unfolding perimeter_def by (rule set_eqI) (auto simp: in_ring_cells)

lemma distinct_sides:
  "a \<noteq> b \<Longrightarrow> distinct ys \<Longrightarrow> distinct (concat (map (\<lambda>y. [(a, y), (b, y)]) ys))"
  by (induction ys) auto

lemma distinct_ring_cells: "1 \<le> r \<Longrightarrow> distinct (ring_cells c r)"
  by (auto simp: ring_cells_def distinct_map inj_on_def distinct_sides)

lemma chebyshev_ring_cells: "1 \<le> r \<Longrightarrow> p \<in> set (ring_cells c r) \<Longrightarrow> chebyshev c p = r"
  by (cases p) (auto simp: in_ring_cells chebyshev_def)

lemma chebyshev_spiral:
  "p \<in> set (concat (map (ring_cells c) [1..D])) \<Longrightarrow> 1 \<le> chebyshev c p \<and> chebyshev c p \<le> D"
  by (auto simp: chebyshev_ring_cells)

lemma spiral_snoc:
  "1 \<le> D \<Longrightarrow> concat (map (ring_cells c) [1..D]) =
     concat (map (ring_cells c) [1..D - 1]) @ ring_cells c D"
  by (simp add: upto_rec2[of 1 D])

lemma distinct_spiral: "distinct (concat (map (ring_cells c) [1..D]))"
proof (induction "nat D" arbitrary: D)
  case 0
  then show ?case by simp
next
  case (Suc n)
  then have D: "1 \<le> D" and n: "n = nat (D - 1)" by simp_all
  have "set (concat (map (ring_cells c) [1..D - 1])) \<inter> set (ring_cells c D) = {}"
  proof -
    have False if "p \<in> set (concat (map (ring_cells c) [1..D - 1]))" "p \<in> set (ring_cells c D)" for p
      using chebyshev_spiral[OF that(1)] chebyshev_ring_cells[OF _ that(2)] D by simp
    then show ?thesis by blast
  qed
  then show ?case
    using Suc.hyps(1)[OF n] D by (simp add: spiral_snoc distinct_ring_cells del: set_concat)
qed

lemma sorted_chebyshev_spiral:
  "sorted (map (chebyshev c) (concat (map (ring_cells c) [1..D])))"
proof (induction "nat D" arbitrary: D)
  case 0
  then show ?case by simp
next
  case (Suc n)
  then have D: "1 \<le> D" and n: "n = nat (D - 1)" by simp_all
  have a: "\<forall>p\<in>set (concat (map (ring_cells c) [1..D - 1])). chebyshev c p \<le> D - 1"
    using chebyshev_spiral by blast
  have b: "\<forall>p\<in>set (ring_cells c D). chebyshev c p = D"
    using chebyshev_ring_cells D by simp
  have "sorted (map (chebyshev c) (ring_cells c D))"
    using b by (simp add: sorted_wrt_iff_nth_less sorted_iff_nth_mono)
  then show ?case
    using Suc.hyps(1)[OF n] D a b
    by (simp add: spiral_snoc sorted_append del: set_concat) force
qed

section \<open>Rounding to doubles\<close>

lemma rhe_lower: "\<lfloor>y\<rfloor> \<le> round_half_even y"
  by (simp add: round_half_even_def Let_def)

lemma rhe_upper: "round_half_even y \<le> \<lfloor>y\<rfloor> + 1"
  by (simp add: round_half_even_def Let_def)

lemma rhe_up: "round_half_even y \<noteq> \<lfloor>y\<rfloor> \<Longrightarrow> 1 / 2 \<le> y - real_of_int \<lfloor>y\<rfloor>"
  by (simp add: round_half_even_def Let_def split: if_splits)

lemma rhe_of_int: "round_half_even (real_of_int k) = k"
  by (simp add: round_half_even_def Let_def)

lemma rhe_near:
  assumes lo: "real_of_int m - 1 / 2 < y" and hi: "y < real_of_int m + 1 / 2"
  shows "round_half_even y = m"
proof (cases "real_of_int m \<le> y")
  case True
  have "y < real_of_int m + 1" using hi by arith
  with True have f: "\<lfloor>y\<rfloor> = m" by (rule floor_unique)
  have "y - real_of_int m < 1 / 2" using hi by arith
  then show ?thesis by (simp add: round_half_even_def f)
next
  case False
  have a: "real_of_int (m - 1) \<le> y" using lo by simp
  have b: "y < real_of_int (m - 1) + 1" using False by simp
  from a b have f: "\<lfloor>y\<rfloor> = m - 1" by (rule floor_unique)
  have "1 / 2 < y - real_of_int (m - 1)" using lo by simp
  then show ?thesis by (simp add: round_half_even_def f)
qed

lemma log_floor_lower:
  assumes "0 < x"
  shows "2 powr real_of_int \<lfloor>log 2 x\<rfloor> \<le> x"
proof -
  have "real_of_int \<lfloor>log 2 x\<rfloor> \<le> log 2 x" by (rule of_int_floor_le)
  then have "2 powr real_of_int \<lfloor>log 2 x\<rfloor> \<le> 2 powr log 2 x"
    by (rule powr_mono) simp
  also have "2 powr log 2 x = x" using assms by simp
  finally show ?thesis .
qed

lemma log_floor_less:
  assumes "0 < x" and "x < 2 ^ k"
  shows "\<lfloor>log 2 x\<rfloor> < int k"
proof (rule ccontr)
  assume "\<not> \<lfloor>log 2 x\<rfloor> < int k"
  then have "real k \<le> real_of_int \<lfloor>log 2 x\<rfloor>" by linarith
  then have "2 powr real k \<le> 2 powr real_of_int \<lfloor>log 2 x\<rfloor>"
    by (rule powr_mono) simp
  also have "\<dots> \<le> x" by (rule log_floor_lower[OF assms(1)])
  finally have "2 ^ k \<le> x" by (simp add: powr_realpow)
  with assms(2) show False by simp
qed

lemma ulp_power:
  assumes "e \<le> 52"
  shows "2 powr (real_of_int e - 52) = 1 / 2 ^ nat (52 - e)"
proof -
  define k where "k = nat (52 - e)"
  have "real k = real_of_int (52 - e)"
    unfolding k_def using assms by (intro of_nat_nat) simp
  then have "real_of_int e - 52 = - real k" by simp
  then have "2 powr (real_of_int e - 52) = 2 powr (- real k)" by (simp only:)
  also have "\<dots> = inverse (2 powr real k)" by (rule powr_minus)
  also have "2 powr real k = (2 :: real) ^ k" by (rule powr_realpow) simp
  finally show ?thesis unfolding k_def by (simp only: inverse_eq_divide)
qed

lemma to_double_pos:
  assumes "0 < x" and "\<lfloor>log 2 x\<rfloor> \<le> 52"
  shows "to_double x =
    real_of_int (round_half_even (x * 2 ^ nat (52 - \<lfloor>log 2 x\<rfloor>))) / 2 ^ nat (52 - \<lfloor>log 2 x\<rfloor>)"
proof -
  have "to_double x = real_of_int (round_half_even (x / 2 powr (real_of_int \<lfloor>log 2 x\<rfloor> - 52))) *
      2 powr (real_of_int \<lfloor>log 2 x\<rfloor> - 52)"
    using assms(1) by (simp add: to_double_def Let_def)
  then show ?thesis
    by (simp only: ulp_power[OF assms(2)]) simp
qed

lemma to_double_of_int:
  assumes "0 \<le> n" and "n < 2 ^ 53"
  shows "to_double (real_of_int n) = real_of_int n"
proof (cases "n = 0")
  case True
  then show ?thesis by (simp add: to_double_def)
next
  case False
  with assms have pos: "0 < real_of_int n" by simp
  have "real_of_int n < real_of_int (2 ^ 53)" using assms(2) by (simp only: of_int_less_iff)
  then have "real_of_int n < 2 ^ 53" by simp
  from log_floor_less[OF pos this] have e: "\<lfloor>log 2 (real_of_int n)\<rfloor> \<le> 52" by simp
  define k where "k = nat (52 - \<lfloor>log 2 (real_of_int n)\<rfloor>)"
  have "real_of_int n * 2 ^ k = real_of_int (n * 2 ^ k)" by simp
  then have r: "round_half_even (real_of_int n * 2 ^ k) = n * 2 ^ k"
    by (simp only: rhe_of_int)
  have "to_double (real_of_int n) =
      real_of_int (round_half_even (real_of_int n * 2 ^ k)) / 2 ^ k"
    by (simp only: to_double_pos[OF pos e] k_def)
  also have "\<dots> = real_of_int (n * 2 ^ k) / 2 ^ k" by (simp only: r)
  also have "\<dots> = real_of_int n" by simp
  finally show ?thesis .
qed

lemma floor_to_double_sqrt:
  assumes "0 \<le> n" and "n < 2 ^ 52"
  shows "\<lfloor>to_double (sqrt (real_of_int n))\<rfloor> = \<lfloor>sqrt (real_of_int n)\<rfloor>"
proof (cases "n = 0")
  case True
  then show ?thesis by (simp add: to_double_def)
next
  case False
  define x where "x = sqrt (real_of_int n)"
  define v where "v = \<lfloor>x\<rfloor>"
  have n1: "1 \<le> real_of_int n" using False assms(1) by simp
  then have x1: "1 \<le> x" unfolding x_def by simp
  then have pos: "0 < x" by simp
  have xx: "x\<^sup>2 = real_of_int n" unfolding x_def using n1 by simp
  have "real_of_int n < real_of_int (2 ^ 52)" using assms(2) by (simp only: of_int_less_iff)
  then have "real_of_int n < (2 ^ 26)\<^sup>2" by simp
  then have x26: "x < 2 ^ 26" unfolding x_def by (intro real_less_lsqrt) simp_all
  from log_floor_less[OF pos x26] have e25: "\<lfloor>log 2 x\<rfloor> \<le> 25" by simp
  then have e52: "\<lfloor>log 2 x\<rfloor> \<le> 52" by simp
  define k where "k = nat (52 - \<lfloor>log 2 x\<rfloor>)"
  have k27: "27 \<le> k" unfolding k_def using e25 by arith
  define K where "K = (2 :: int) ^ k"
  have "(2 :: int) ^ 27 \<le> 2 ^ k" using k27 by (intro power_increasing) simp_all
  then have K27: "2 ^ 27 \<le> K" unfolding K_def .
  then have Kpos: "0 < real_of_int K" by simp
  have Kr: "(2 :: real) ^ k = real_of_int K" unfolding K_def by simp
  define r where "r = round_half_even (x * real_of_int K)"
  have td: "to_double x = real_of_int r / real_of_int K"
    unfolding r_def Kr[symmetric] k_def by (rule to_double_pos[OF pos e52])
  have v0: "0 \<le> v" unfolding v_def using pos by simp
  have vx: "real_of_int v \<le> x" unfolding v_def by (rule of_int_floor_le)
  have xv: "x < real_of_int v + 1" unfolding v_def by linarith
  have "real_of_int v < 2 ^ 26" using vx x26 by linarith
  then have "real_of_int v < real_of_int (2 ^ 26)" by simp
  then have v26: "v < 2 ^ 26" by (simp only: of_int_less_iff)
  then have vK: "v + 1 \<le> K" using K27 by simp
  have "real_of_int (v * K) \<le> x * real_of_int K"
    using vx Kpos by (simp add: mult_right_mono)
  then have "v * K \<le> \<lfloor>x * real_of_int K\<rfloor>" by (simp only: le_floor_iff)
  also have "\<dots> \<le> r" unfolding r_def by (rule rhe_lower)
  finally have lo: "v * K \<le> r" .
  have n_lt: "n < (v + 1)\<^sup>2"
  proof -
    have "x\<^sup>2 < (real_of_int v + 1)\<^sup>2" using xv pos by (intro power_strict_mono) simp_all
    then have "real_of_int n < real_of_int ((v + 1)\<^sup>2)" using xx by simp
    then show ?thesis by (simp only: of_int_less_iff)
  qed
  have hi: "r < (v + 1) * K"
  proof (rule ccontr)
    assume "\<not> r < (v + 1) * K"
    then have rW: "(v + 1) * K \<le> r" by simp
    have "x * real_of_int K < real_of_int ((v + 1) * K)"
      using xv Kpos by (simp add: mult_strict_right_mono)
    then have fl: "\<lfloor>x * real_of_int K\<rfloor> < (v + 1) * K" by (simp only: floor_less_iff)
    have "r \<le> \<lfloor>x * real_of_int K\<rfloor> + 1" unfolding r_def by (rule rhe_upper)
    with rW fl have ne: "r \<noteq> \<lfloor>x * real_of_int K\<rfloor>" and feq: "\<lfloor>x * real_of_int K\<rfloor> = (v + 1) * K - 1"
      by linarith+
    from rhe_up[OF ne[unfolded r_def]] feq
    have "1 / 2 \<le> x * real_of_int K - real_of_int ((v + 1) * K - 1)" by simp
    then have "(real_of_int v + 1) * real_of_int K - 1 / 2 \<le> x * real_of_int K" by simp
    moreover have "((real_of_int v + 1) - 1 / (2 * real_of_int K)) * real_of_int K =
        (real_of_int v + 1) * real_of_int K - 1 / 2"
      using Kpos by (simp add: left_diff_distrib)
    ultimately have
      "((real_of_int v + 1) - 1 / (2 * real_of_int K)) * real_of_int K \<le> x * real_of_int K"
      by (simp only:)
    then have ax: "(real_of_int v + 1) - 1 / (2 * real_of_int K) \<le> x"
      using Kpos by (simp only: mult_le_cancel_right_pos)
    define t where "t = 1 / (2 * real_of_int K)"
    define V where "V = real_of_int v + 1"
    have t0: "0 < t" unfolding t_def using Kpos by simp
    have VK: "V \<le> real_of_int K" unfolding V_def using vK by linarith
    have V1: "1 \<le> V" unfolding V_def using v0 by simp
    have "2 * V * t = V / real_of_int K" unfolding t_def by simp
    also have "\<dots> \<le> 1" using VK Kpos by simp
    finally have Vt: "2 * V * t \<le> 1" .
    have K1: "1 \<le> real_of_int K" using K27 by simp
    have t12: "t \<le> 1 / 2" unfolding t_def using K1 by (simp add: field_simps)
    have a0: "0 \<le> V - t" using V1 t12 by simp
    have "(V - t)\<^sup>2 \<le> x\<^sup>2"
      using ax a0 unfolding V_def t_def by (intro power_mono) simp_all
    then have a_le: "(V - t)\<^sup>2 \<le> real_of_int n" by (simp only: xx)
    have "(V - t)\<^sup>2 = V\<^sup>2 + t\<^sup>2 - 2 * V * t" by (rule power2_diff)
    moreover have "0 < t\<^sup>2" using t0 by simp
    ultimately have a_gt: "V\<^sup>2 - 1 < (V - t)\<^sup>2" using Vt by linarith
    have "n + 1 \<le> (v + 1)\<^sup>2" using n_lt by simp
    then have "real_of_int (n + 1) \<le> real_of_int ((v + 1)\<^sup>2)" by (simp only: of_int_le_iff)
    then have "real_of_int n \<le> V\<^sup>2 - 1" unfolding V_def by simp
    with a_le a_gt show False by linarith
  qed
  have "real_of_int (v * K) \<le> real_of_int r" using lo by (simp only: of_int_le_iff)
  then have A: "real_of_int v \<le> real_of_int r / real_of_int K"
    using Kpos by (simp add: le_divide_eq)
  have "real_of_int r < real_of_int ((v + 1) * K)" using hi by (simp only: of_int_less_iff)
  then have B: "real_of_int r / real_of_int K < real_of_int v + 1"
    using Kpos by (simp add: divide_less_eq)
  from A B have "\<lfloor>real_of_int r / real_of_int K\<rfloor> = v" by (rule floor_unique)
  then show ?thesis unfolding td[symmetric] v_def x_def .
qed

lemma log_floor_eq:
  assumes "2 ^ k \<le> x" and "x < 2 ^ Suc k"
  shows "\<lfloor>log 2 x\<rfloor> = int k"
proof -
  have pos: "0 < x" using assms(1) by (rule less_le_trans[rotated]) simp
  have lt: "\<lfloor>log 2 x\<rfloor> < int (Suc k)" by (rule log_floor_less[OF pos assms(2)])
  have "2 powr real k \<le> x" using assms(1) by (simp add: powr_realpow)
  then have "real k \<le> log 2 x" using pos by (simp add: le_log_iff)
  then have "int k \<le> \<lfloor>log 2 x\<rfloor>" by (simp add: le_floor_iff)
  with lt show ?thesis by simp
qed

lemma far_rounds_up: "\<lfloor>to_double (sqrt 5184000144000000)\<rfloor> = 72000001"
proof -
  define x :: real where "x = sqrt 5184000144000000"
  have lo26: "2 ^ 26 \<le> x" unfolding x_def by (rule real_le_rsqrt) simp
  have hi27: "x < 2 ^ Suc 26" unfolding x_def by (rule real_less_lsqrt) simp_all
  have e: "\<lfloor>log 2 x\<rfloor> = 26" using log_floor_eq[OF lo26 hi27] by simp
  have pos: "0 < x" using lo26 by (rule less_le_trans[rotated]) simp
  have td: "to_double x = real_of_int (round_half_even (x * 2 ^ 26)) / 2 ^ 26"
    using to_double_pos[OF pos] e by simp
  have up: "x < 72000001" unfolding x_def by (rule real_less_lsqrt) simp_all
  have "(72000001 - 1 / 134217728 :: real)\<^sup>2 < 5184000144000000"
    by (simp add: power2_eq_square)
  then have dn: "72000001 - 1 / 134217728 < x" unfolding x_def by (rule real_less_rsqrt)
  have "round_half_even (x * 2 ^ 26) = 4831838275108864"
  proof (rule rhe_near)
    show "real_of_int 4831838275108864 - 1 / 2 < x * 2 ^ 26" using dn by simp
    show "x * 2 ^ 26 < real_of_int 4831838275108864 + 1 / 2" using up by simp
  qed
  then have "to_double x = 72000001" unfolding td by simp
  then show ?thesis unfolding x_def by simp
qed

section \<open>Facts about the scan\<close>

lemma floor_sqrt_bounds:
  assumes "0 \<le> n"
  shows "0 \<le> \<lfloor>sqrt (real_of_int n)\<rfloor> \<and> \<lfloor>sqrt (real_of_int n)\<rfloor>\<^sup>2 \<le> n \<and>
         n < (\<lfloor>sqrt (real_of_int n)\<rfloor> + 1)\<^sup>2"
proof -
  define v where "v = \<lfloor>sqrt (real_of_int n)\<rfloor>"
  have s: "0 \<le> sqrt (real_of_int n)" using assms by simp
  have lo: "real_of_int v \<le> sqrt (real_of_int n)" unfolding v_def by (rule of_int_floor_le)
  have hi: "sqrt (real_of_int n) < real_of_int v + 1" unfolding v_def by linarith
  have v0: "0 \<le> v" using s unfolding v_def by simp
  have "(real_of_int v)\<^sup>2 \<le> (sqrt (real_of_int n))\<^sup>2"
    using lo v0 by (intro power_mono) simp_all
  then have "real_of_int (v\<^sup>2) \<le> real_of_int n" using assms by simp
  then have a: "v\<^sup>2 \<le> n" by (simp only: of_int_le_iff)
  have "(sqrt (real_of_int n))\<^sup>2 < (real_of_int v + 1)\<^sup>2"
    using hi s by (intro power_strict_mono) simp_all
  then have "real_of_int n < real_of_int ((v + 1)\<^sup>2)" using assms by simp
  then have b: "n < (v + 1)\<^sup>2" by (simp only: of_int_less_iff)
  show ?thesis using v0 a b unfolding v_def by simp
qed

lemma floor_sqrt_eq:
  assumes "0 \<le> v" and "v\<^sup>2 \<le> n" and "n < (v + 1)\<^sup>2"
  shows "\<lfloor>sqrt (real_of_int n)\<rfloor> = v"
proof (rule floor_unique)
  have "(real_of_int v)\<^sup>2 \<le> real_of_int n"
    using assms(2) by (metis of_int_le_iff of_int_power)
  then show "real_of_int v \<le> sqrt (real_of_int n)" by (rule real_le_rsqrt)
  have "real_of_int n < (real_of_int v + 1)\<^sup>2"
    using assms(3) by (metis of_int_less_iff of_int_power of_int_add of_int_1)
  then show "sqrt (real_of_int n) < real_of_int v + 1"
    using assms(1) by (intro real_less_lsqrt) simp_all
qed

lemma floor_distance_exact:
  assumes "(fst a - fst b)\<^sup>2 + (snd a - snd b)\<^sup>2 < 2 ^ 52"
  shows "\<lfloor>distance a b\<rfloor> = \<lfloor>sqrt (real_of_int ((fst a - fst b)\<^sup>2 + (snd a - snd b)\<^sup>2))\<rfloor>"
proof -
  let ?n = "(fst a - fst b)\<^sup>2 + (snd a - snd b)\<^sup>2"
  have n0: "0 \<le> ?n" by simp
  have "?n < 2 ^ 53" using assms by simp
  with n0 have "to_double (real_of_int ?n) = real_of_int ?n" by (rule to_double_of_int)
  then have "distance a b = to_double (sqrt (real_of_int ?n))"
    unfolding distance_def by (simp only:)
  then show ?thesis by (simp only: floor_to_double_sqrt[OF n0 assms])
qed

lemma floor_distance:
  assumes "0 \<le> v" and "v\<^sup>2 \<le> (fst a - fst b)\<^sup>2 + (snd a - snd b)\<^sup>2"
    and "(fst a - fst b)\<^sup>2 + (snd a - snd b)\<^sup>2 < (v + 1)\<^sup>2"
    and "(fst a - fst b)\<^sup>2 + (snd a - snd b)\<^sup>2 < 2 ^ 52"
  shows "\<lfloor>distance a b\<rfloor> = v"
  unfolding floor_distance_exact[OF assms(4)] using assms(1,2,3) by (rule floor_sqrt_eq)

lemma scan_full: "4 \<le> length (fst s) \<Longrightarrow> scan colours px position points s = s"
  by (cases points) simp_all

lemma scan_append:
  "scan colours px position (xs @ ys) s =
   scan colours px position ys (scan colours px position xs s)"
  by (induction xs arbitrary: s) (simp_all add: scan_full)

lemma collect_present:
  "set ks \<subseteq> set (map fst qs) \<Longrightarrow>
   collect qs position ks = Inr (map (\<lambda>k. \<lfloor>distance (the (map_of qs k)) position\<rfloor>) ks)"
proof (induction ks)
  case Nil
  then show ?case by simp
next
  case (Cons k ks)
  then obtain p where "map_of qs k = Some p"
    by (cases "map_of qs k") (auto simp: map_of_eq_None_iff)
  with Cons show ?case by simp
qed

lemma collect_sorted_keys:
  "collect qs position (sort (map fst qs)) =
   Inr (map (\<lambda>k. \<lfloor>distance (the (map_of qs k)) position\<rfloor>) (sort (map fst qs)))"
  by (rule collect_present) simp

lemma visit_outside:
  "px point = None \<Longrightarrow> visit colours px position point s = (fst s, snd s @ [point])"
  by (simp add: visit_def)

lemma visit_filled:
  "c0 \<notin> set colours \<Longrightarrow>
   visit colours (\<lambda>p. case px p of None \<Rightarrow> Some c0 | Some c \<Rightarrow> Some c) position point s =
   visit colours px position point s"
  by (simp add: visit_def split: option.splits)

lemma scan_filled:
  "c0 \<notin> set colours \<Longrightarrow>
   scan colours (\<lambda>p. case px p of None \<Rightarrow> Some c0 | Some c \<Rightarrow> Some c) position points s =
   scan colours px position points s"
  by (induction points arbitrary: s) (simp_all add: visit_filled)

lemma four_keys_length:
  assumes "{(- 1, - 1), (- 1, 1), (1, - 1), (1, 1)} \<subseteq> set (map fst (qs :: quadrants))"
  shows "4 \<le> length qs"
proof -
  have "card {(- 1, - 1), (- 1, 1), (1, - 1), (1 :: int, 1 :: int)} = 4" by simp
  then have "4 \<le> card (set (map fst qs))"
    using card_mono[OF _ assms] by simp
  also have "\<dots> \<le> length (map fst qs)" by (rule card_length)
  finally show ?thesis by simp
qed

lemma visit_dry:
  assumes "\<forall>c. px point = Some c \<longrightarrow> c \<notin> set colours"
  shows "visit colours px position point (qs, rd) = (qs, rd @ [point])"
  using assms by (auto simp: visit_def Let_def split: option.splits)

lemma visit_known:
  assumes "(cmp (fst point) (fst position), cmp (snd point) (snd position)) \<in> set (map fst qs)"
  shows "visit colours px position point (qs, rd) = (qs, rd @ [point])"
  using assms by (simp add: visit_def Let_def split: option.splits)

lemma scan_keeps:
  assumes "\<forall>q\<in>set pts. q \<noteq> p \<longrightarrow> (\<forall>c. px q = Some c \<longrightarrow> c \<notin> set colours)"
  shows "fst (scan colours px position pts
           ([((cmp (fst p) (fst position), cmp (snd p) (snd position)), p)], rd)) =
         [((cmp (fst p) (fst position), cmp (snd p) (snd position)), p)]"
  using assms
proof (induction pts arbitrary: rd)
  case Nil
  then show ?case by simp
next
  case (Cons point pts)
  let ?qs = "[((cmp (fst p) (fst position), cmp (snd p) (snd position)), p)]"
  have "visit colours px position point (?qs, rd) = (?qs, rd @ [point])"
  proof (cases "point = p")
    case True
    then show ?thesis by (intro visit_known) simp
  next
    case False
    with Cons.prems show ?thesis by (intro visit_dry) simp
  qed
  with Cons show ?case by simp
qed

lemma scan_single:
  assumes "\<forall>q\<in>set pts. q \<noteq> p \<longrightarrow> (\<forall>c. px q = Some c \<longrightarrow> c \<notin> set colours)"
    and "p \<in> set pts" and "px p = Some c" and "c \<in> set colours"
  shows "fst (scan colours px position pts ([], rd)) =
         [((cmp (fst p) (fst position), cmp (snd p) (snd position)), p)]"
  using assms(1,2)
proof (induction pts arbitrary: rd)
  case Nil
  then show ?case by simp
next
  case (Cons point pts)
  show ?case
  proof (cases "point = p")
    case True
    have "visit colours px position p ([], rd) =
        ([((cmp (fst p) (fst position), cmp (snd p) (snd position)), p)], rd @ [p])"
      using assms(3,4) by (simp add: visit_def)
    with True Cons.prems(1) show ?thesis by (simp add: scan_keeps)
  next
    case False
    with Cons.prems(1) have "visit colours px position point ([], rd) = ([], rd @ [point])"
      by (intro visit_dry) simp
    with False Cons show ?thesis by simp
  qed
qed

lemma nearest_rain_scan:
  assumes "pixels img position = Some c" and "c \<notin> set colours"
    and "scan colours (pixels img) position
           (concat (map (ring_cells position) [1..max (width img) (height img)]))
           ([], [position]) = s"
  shows "nearest_rain colours position img =
     Some \<lparr>outcome = collect (fst s) position (sort (map fst (fst s))),
           reads = snd s, recorded = fst s\<rparr>"
  using assms by (simp add: nearest_rain_def search_outwards_eq Let_def)

subsection \<open>Evaluating the examples\<close>

lemma wet_rain: "wet \<in> set met_eireann_rain_colours"
  by (simp add: wet_def met_eireann_rain_colours_def)

lemma dry_no_rain: "dry \<notin> set met_eireann_rain_colours"
  by (simp add: dry_def met_eireann_rain_colours_def)

lemmas image_eval =
  raster_def visit_def cmp_def ring_cells_def upto_rec1 wet_rain dry_no_rain Let_def

lemma corners_centre: "pixels corners_image (2, 2) = Some dry"
  by (simp add: corners_image_def raster_def)

lemma corners_distances:
  "\<lfloor>distance (0, 0) (2, 2)\<rfloor> = 2" "\<lfloor>distance (4, 0) (2, 2)\<rfloor> = 2"
  "\<lfloor>distance (0, 4) (2, 2)\<rfloor> = 2" "\<lfloor>distance (4, 4) (2, 2)\<rfloor> = 2"
  by (rule floor_distance; simp)+

lemma corners_scan:
  "scan met_eireann_rain_colours (pixels corners_image) (2, 2)
     (ring_cells (2, 2) 1 @ ring_cells (2, 2) 2) ([], [(2, 2)]) =
   ([((- 1, - 1), (0, 0)), ((1, - 1), (4, 0)), ((- 1, 1), (0, 4)), ((1, 1), (4, 4))],
    (2, 2) # ring_cells (2, 2) 1 @ ring_cells (2, 2) 2)"
  by (simp add: image_eval corners_image_def)

lemma corners_points:
  "concat (map (ring_cells (2, 2)) [1..max (width corners_image) (height corners_image)]) =
   (ring_cells (2, 2) 1 @ ring_cells (2, 2) 2) @ concat (map (ring_cells (2, 2)) [3..5])"
  by (simp add: corners_image_def raster_def upto_rec1)

lemma corners_run:
  "nearest_rain met_eireann_rain_colours (2, 2) corners_image =
   Some \<lparr>outcome = Inr [2, 2, 2, 2],
         reads = (2, 2) # ring_cells (2, 2) 1 @ ring_cells (2, 2) 2,
         recorded = [((- 1, - 1), (0, 0)), ((1, - 1), (4, 0)),
                     ((- 1, 1), (0, 4)), ((1, 1), (4, 4))]\<rparr>"
proof -
  have "scan met_eireann_rain_colours (pixels corners_image) (2, 2)
      (concat (map (ring_cells (2, 2)) [1..max (width corners_image) (height corners_image)]))
      ([], [(2, 2)]) =
    ([((- 1, - 1), (0, 0)), ((1, - 1), (4, 0)), ((- 1, 1), (0, 4)), ((1, 1), (4, 4))],
     (2, 2) # ring_cells (2, 2) 1 @ ring_cells (2, 2) 2)"
    by (subst corners_points, subst scan_append, subst corners_scan, rule scan_full) simp
  from nearest_rain_scan[OF corners_centre dry_no_rain this] show ?thesis
    by (simp add: corners_distances)
qed

section \<open>Properties of \<open>search_outwards\<close>\<close>

text \<open>
  C4. For every centre and every maximal distance \<open>D\<close>, \<open>search_outwards\<close> returns, and what
  it yields is ring 1, then ring 2, and so on up to ring \<open>D\<close>; ring \<open>r\<close> consists of the
  cells on the perimeter of the square of half-width \<open>r\<close> around the centre, each exactly
  once; and no position occurs twice in the whole enumeration.
\<close>

theorem search_outwards_covers_rings:
  "search_outwards c D = Some (concat (map (ring_cells c) [1..D])) \<and>
   (\<forall>r\<in>{1..D}. ring c r = Some (ring_cells c r) \<and> distinct (ring_cells c r) \<and>
      set (ring_cells c r) = perimeter c r) \<and>
   distinct (concat (map (ring_cells c) [1..D]))"
  by (simp add: search_outwards_eq ring_eq distinct_ring_cells set_ring_cells distinct_spiral
      del: set_concat)

theorem search_outwards_covers_rings_witness:
  "search_outwards (0, 0) 2 = Some (ring_cells (0, 0) 1 @ ring_cells (0, 0) 2) \<and>
   ring (0, 0) 1 = Some (ring_cells (0, 0) 1) \<and> distinct (ring_cells (0, 0) 1) \<and>
   set (ring_cells (0, 0) 1) = perimeter (0, 0) 1 \<and>
   ring (0, 0) 2 = Some (ring_cells (0, 0) 2) \<and> distinct (ring_cells (0, 0) 2) \<and>
   set (ring_cells (0, 0) 2) = perimeter (0, 0) 2 \<and>
   distinct (ring_cells (0, 0) 1 @ ring_cells (0, 0) 2)"
  using search_outwards_covers_rings[of "(0, 0)" 2]
  by (simp add: upto_rec1 del: distinct_append)

text \<open>
  C10. Every position yielded during ring \<open>r\<close> has Chebyshev distance exactly \<open>r\<close> from the
  centre; the centre itself is never yielded; and the Chebyshev distances of the yielded
  positions never decrease.
\<close>

theorem search_outwards_chebyshev:
  "search_outwards c D = Some (concat (map (ring_cells c) [1..D])) \<and>
   (\<forall>r\<in>{1..D}. ring c r = Some (ring_cells c r) \<and>
      (\<forall>p\<in>set (ring_cells c r). chebyshev c p = r)) \<and>
   c \<notin> set (concat (map (ring_cells c) [1..D])) \<and>
   sorted (map (chebyshev c) (concat (map (ring_cells c) [1..D])))"
proof -
  have "c \<notin> set (concat (map (ring_cells c) [1..D]))"
    using chebyshev_spiral[of c c D] by (auto simp: chebyshev_def)
  then show ?thesis
    using sorted_chebyshev_spiral[of c D]
    by (simp add: search_outwards_eq ring_eq chebyshev_ring_cells del: set_concat)
qed

theorem search_outwards_chebyshev_witness:
  "search_outwards (3, 3) 2 = Some (ring_cells (3, 3) 1 @ ring_cells (3, 3) 2) \<and>
   ring (3, 3) 1 = Some (ring_cells (3, 3) 1) \<and> chebyshev (3, 3) (4, 3) = 1 \<and>
   ring (3, 3) 2 = Some (ring_cells (3, 3) 2) \<and> chebyshev (3, 3) (1, 4) = 2 \<and>
   (3, 3) \<notin> set (ring_cells (3, 3) 1 @ ring_cells (3, 3) 2) \<and>
   sorted (map (chebyshev (3, 3)) (ring_cells (3, 3) 1 @ ring_cells (3, 3) 2))"
proof -
  have a: "(4, 3) \<in> set (ring_cells (3, 3) 1)" and b: "(1, 4) \<in> set (ring_cells (3, 3) 2)"
    by (simp_all add: in_ring_cells)
  show ?thesis
    using search_outwards_chebyshev[of "(3, 3)" 2] a b
    by (simp add: upto_rec1 del: set_append map_append)
qed

text \<open>
  C8, as the code has it. Within each ring the traversal covers the top edge from left to
  right, then, for every row strictly between the top and the bottom edge, from top to
  bottom, the cell on the left edge followed by the cell on the right edge, then the bottom
  edge from left to right.
\<close>

theorem ring_order_rows:
  "(1 \<le> r \<longrightarrow> ring c r = Some
      (map (\<lambda>x. (x, snd c - r)) [fst c - r..fst c + r] @
       concat (map (\<lambda>y. [(fst c - r, y), (fst c + r, y)]) [snd c - r + 1..snd c + r - 1]) @
       map (\<lambda>x. (x, snd c + r)) [fst c - r..fst c + r])) \<and>
   search_outwards c D = Some (concat (map (\<lambda>r.
       map (\<lambda>x. (x, snd c - r)) [fst c - r..fst c + r] @
       concat (map (\<lambda>y. [(fst c - r, y), (fst c + r, y)]) [snd c - r + 1..snd c + r - 1]) @
       map (\<lambda>x. (x, snd c + r)) [fst c - r..fst c + r]) [1..D]))"
  using ring_eq[of r c] search_outwards_eq[of c D] unfolding ring_cells_def by simp

theorem ring_order_rows_witness:
  "ring (0, 0) 1 =
     Some [(- 1, - 1), (0, - 1), (1, - 1), (- 1, 0), (1, 0), (- 1, 1), (0, 1), (1, 1)] \<and>
   search_outwards (0, 0) 1 =
     Some [(- 1, - 1), (0, - 1), (1, - 1), (- 1, 0), (1, 0), (- 1, 1), (0, 1), (1, 1)]"
  using ring_order_rows[of 1 "(0, 0)" 1] by (simp add: upto_rec1)

text \<open>
  C8, as it is worded, fails already for the first ring around \<open>(0, 0)\<close>: the cells left
  and right of the centre are yielded before the bottom edge, not after it.
\<close>

theorem ring_order_counterexample:
  "search_outwards (0, 0) 1 =
     Some [(- 1, - 1), (0, - 1), (1, - 1), (- 1, 0), (1, 0), (- 1, 1), (0, 1), (1, 1)] \<and>
   concat (map (edges_in_turn (0, 0)) [1..1]) =
     [(- 1, - 1), (0, - 1), (1, - 1), (- 1, 1), (0, 1), (1, 1), (- 1, 0), (1, 0)] \<and>
   search_outwards (0, 0) 1 \<noteq> Some (concat (map (edges_in_turn (0, 0)) [1..1]))"
  by (simp add: search_outwards_eq ring_cells_def edges_in_turn_def upto_rec1)

section \<open>Properties of \<open>nearest_rain\<close>\<close>

text \<open>
  C3. When the colour of the centre pixel is a rain colour, \<open>nearest_rain\<close> returns
  \<open>[0, 0, 0, 0]\<close> whatever the rest of the image holds, and the only pixel it reads is the
  centre.
\<close>

theorem centre_raining:
  assumes "pixels img position = Some c" and "c \<in> set colours"
  shows "nearest_rain colours position img =
     Some \<lparr>outcome = Inr [0, 0, 0, 0], reads = [position], recorded = []\<rparr>"
  using assms by (simp add: nearest_rain_def)

theorem centre_raining_witness:
  "pixels cross_image (2, 1) = Some wet \<and> wet \<in> set met_eireann_rain_colours \<and>
   nearest_rain met_eireann_rain_colours (2, 1) cross_image =
     Some \<lparr>outcome = Inr [0, 0, 0, 0], reads = [(2, 1)], recorded = []\<rparr>"
proof -
  have px: "pixels cross_image (2, 1) = Some wet"
    by (simp add: cross_image_def raster_def)
  show ?thesis
    using px wet_rain centre_raining[OF px wet_rain] by simp
qed

text \<open>
  C9. When the pixel accessor rejects the centre position, the \<open>IndexError\<close> of the first
  lookup leaves \<open>nearest_rain\<close>: no result is returned, and nothing else was read.
\<close>

theorem centre_outside:
  assumes "pixels img position = None"
  shows "nearest_rain colours position img =
     Some \<lparr>outcome = Inl IndexError, reads = [position], recorded = []\<rparr>"
  using assms by (simp add: nearest_rain_def)

theorem centre_outside_witness:
  "pixels west_image (7, 3) = None \<and>
   nearest_rain met_eireann_rain_colours (7, 3) west_image =
     Some \<lparr>outcome = Inl IndexError, reads = [(7, 3)], recorded = []\<rparr>"
proof -
  have px: "pixels west_image (7, 3) = None"
    by (simp add: west_image_def raster_def)
  show ?thesis
    using px centre_outside[OF px] by simp
qed

text \<open>
  C7. When the centre pixel can be read, \<open>nearest_rain\<close> returns a result and never an
  error, and the positions the accessor rejects count as no rain: the call behaves exactly
  as on the image in which every rejected position holds a colour that is no rain colour.
\<close>

theorem outside_skipped:
  assumes "pixels img position \<noteq> None" and "c0 \<notin> set colours"
  shows "(\<exists>result rd qs. nearest_rain colours position img =
            Some \<lparr>outcome = Inr result, reads = rd, recorded = qs\<rparr>) \<and>
         nearest_rain colours position
           (img\<lparr>pixels := \<lambda>p. case pixels img p of None \<Rightarrow> Some c0 | Some c \<Rightarrow> Some c\<rparr>) =
         nearest_rain colours position img"
proof
  show "\<exists>result rd qs. nearest_rain colours position img =
            Some \<lparr>outcome = Inr result, reads = rd, recorded = qs\<rparr>"
    using assms(1)
    by (auto simp: nearest_rain_def search_outwards_eq collect_sorted_keys Let_def)
  show "nearest_rain colours position
           (img\<lparr>pixels := \<lambda>p. case pixels img p of None \<Rightarrow> Some c0 | Some c \<Rightarrow> Some c\<rparr>) =
         nearest_rain colours position img"
    using assms by (auto simp: nearest_rain_def scan_filled)
qed

theorem outside_skipped_witness:
  "pixels west_image (0, 0) \<noteq> None \<and> dry \<notin> set met_eireann_rain_colours \<and>
   (\<exists>result rd qs. nearest_rain met_eireann_rain_colours (0, 0) west_image =
      Some \<lparr>outcome = Inr result, reads = rd, recorded = qs\<rparr>) \<and>
   nearest_rain met_eireann_rain_colours (0, 0)
     (west_image\<lparr>pixels :=
        \<lambda>p. case pixels west_image p of None \<Rightarrow> Some dry | Some c \<Rightarrow> Some c\<rparr>) =
   nearest_rain met_eireann_rain_colours (0, 0) west_image"
proof -
  have px: "pixels west_image (0, 0) \<noteq> None"
    by (simp add: west_image_def raster_def)
  show ?thesis
    using px dry_no_rain outside_skipped[OF px dry_no_rain] by simp
qed

text \<open>
  C6. Once the dictionary holds a position for each of NW, SW, NE and SE, the pixel
  accessor is not read again: the reads of the whole call are the reads made up to that
  moment, whatever the enumeration would still yield.
\<close>

theorem no_reads_after_four:
  assumes "pixels img position = Some c" and "c \<notin> set colours"
    and "search_outwards position (max (width img) (height img)) = Some (xs @ ys)"
    and "scan colours (pixels img) position xs ([], [position]) = (qs, rd)"
    and "{(- 1, - 1), (- 1, 1), (1, - 1), (1, 1)} \<subseteq> set (map fst qs)"
  shows "\<exists>result. nearest_rain colours position img =
           Some \<lparr>outcome = result, reads = rd, recorded = qs\<rparr>"
proof -
  have "scan colours (pixels img) position (xs @ ys) ([], [position]) = (qs, rd)"
    using assms(4) four_keys_length[OF assms(5)] by (simp add: scan_append scan_full)
  then show ?thesis
    using assms(1,2,3) by (simp add: nearest_rain_def)
qed

theorem no_reads_after_four_witness:
  "\<exists>result. nearest_rain met_eireann_rain_colours (2, 2) corners_image =
     Some \<lparr>outcome = result,
           reads = (2, 2) # ring_cells (2, 2) 1 @ ring_cells (2, 2) 2,
           recorded = [((- 1, - 1), (0, 0)), ((1, - 1), (4, 0)),
                       ((- 1, 1), (0, 4)), ((1, 1), (4, 4))]\<rparr>"
proof -
  have so: "search_outwards (2, 2) (max (width corners_image) (height corners_image)) =
      Some ((ring_cells (2, 2) 1 @ ring_cells (2, 2) 2) @ concat (map (ring_cells (2, 2)) [3..5]))"
    by (simp only: search_outwards_eq corners_points)
  have keys: "{(- 1, - 1), (- 1, 1), (1, - 1), (1, 1)} \<subseteq>
      set (map fst [((- 1, - 1), (0 :: int, 0 :: int)), ((1, - 1), (4, 0)),
                    ((- 1, 1), (0, 4)), ((1 :: int, 1 :: int), (4, 4))])"
    by simp
  from no_reads_after_four[OF corners_centre dry_no_rain so corners_scan keys]
  show ?thesis .
qed

text \<open>
  C5, as the code has it. For each of the four quadrants: when the dictionary holds a
  position \<open>p\<close> for it and the squared distance \<open>dx\<^sup>2 + dy\<^sup>2\<close> between \<open>p\<close> and the centre is
  below \<open>2 ^ 52\<close>, the value reported for it (at the place of its key among the sorted
  keys) is the floor of the exact Euclidean distance, that is the integer \<open>v\<close> with
  \<open>v\<^sup>2 \<le> dx\<^sup>2 + dy\<^sup>2 < (v + 1)\<^sup>2\<close>.
\<close>

theorem reported_is_floor:
  assumes "nearest_rain colours position img = Some r"
    and "map_of (recorded r) q = Some p"
    and "q \<in> {(- 1, - 1), (- 1, 1), (1, - 1), (1, 1)}"
    and "(fst p - fst position)\<^sup>2 + (snd p - snd position)\<^sup>2 < 2 ^ 52"
  shows "\<exists>result i. outcome r = Inr result \<and> length result = length (recorded r) \<and>
           i < length result \<and> sort (map fst (recorded r)) ! i = q \<and>
           result ! i =
             \<lfloor>sqrt (real_of_int ((fst p - fst position)\<^sup>2 + (snd p - snd position)\<^sup>2))\<rfloor> \<and>
           (result ! i)\<^sup>2 \<le> (fst p - fst position)\<^sup>2 + (snd p - snd position)\<^sup>2 \<and>
           (fst p - fst position)\<^sup>2 + (snd p - snd position)\<^sup>2 < (result ! i + 1)\<^sup>2"
proof -
  let ?ks = "sort (map fst (recorded r))"
  let ?res = "map (\<lambda>k. \<lfloor>distance (the (map_of (recorded r) k)) position\<rfloor>) ?ks"
  let ?n = "(fst p - fst position)\<^sup>2 + (snd p - snd position)\<^sup>2"
  have rec_nonempty: "recorded r \<noteq> []" using assms(2) by auto
  have out: "outcome r = Inr ?res"
    using assms(1) rec_nonempty
    by (auto simp: nearest_rain_def search_outwards_eq collect_sorted_keys Let_def
        split: option.splits if_splits)
  have "q \<in> set ?ks"
    using assms(2) by (simp add: map_of_SomeD image_iff) (metis fst_conv map_of_SomeD)
  then obtain i where i: "i < length ?ks" "?ks ! i = q"
    unfolding in_set_conv_nth by blast
  have "?res ! i = \<lfloor>distance p position\<rfloor>"
    using i assms(2) by simp
  then have v: "?res ! i = \<lfloor>sqrt (real_of_int ?n)\<rfloor>"
    by (simp only: floor_distance_exact[OF assms(4)])
  have n: "0 \<le> ?n" by simp
  from floor_sqrt_bounds[OF n] have
    "\<lfloor>sqrt (real_of_int ?n)\<rfloor>\<^sup>2 \<le> ?n \<and> ?n < (\<lfloor>sqrt (real_of_int ?n)\<rfloor> + 1)\<^sup>2"
    by simp
  with out i v show ?thesis
    by (intro exI[of _ ?res] exI[of _ i]) simp
qed

theorem reported_is_floor_witness:
  "\<exists>r result i.
     nearest_rain met_eireann_rain_colours (2, 2) corners_image = Some r \<and>
     map_of (recorded r) (- 1, 1) = Some (0, 4) \<and> (8 :: int) < 2 ^ 52 \<and>
     outcome r = Inr result \<and> length result = 4 \<and> i < length result \<and>
     sort (map fst (recorded r)) ! i = (- 1, 1) \<and>
     result ! i = \<lfloor>sqrt (real_of_int 8)\<rfloor> \<and> (result ! i)\<^sup>2 \<le> 8 \<and> 8 < (result ! i + 1)\<^sup>2"
proof -
  let ?r = "\<lparr>outcome = Inr [2, 2, 2, 2],
         reads = (2, 2) # ring_cells (2, 2) 1 @ ring_cells (2, 2) 2,
         recorded = [((- 1, - 1), (0, 0)), ((1, - 1), (4, 0)),
                     ((- 1, 1), (0, 4)), ((1, 1), (4, 4))]\<rparr> :: run"
  have m: "map_of (recorded ?r) (- 1, 1) = Some (0, 4)" by simp
  have q: "(- 1, 1) \<in> {(- 1, - 1), (- 1, 1), (1, - 1), (1 :: int, 1 :: int)}" by simp
  have b: "(fst (0 :: int, 4 :: int) - fst (2 :: int, 2 :: int))\<^sup>2 +
      (snd (0 :: int, 4 :: int) - snd (2 :: int, 2 :: int))\<^sup>2 < 2 ^ 52" by simp
  from reported_is_floor[OF corners_run m q b] obtain result i where
    "outcome ?r = Inr result \<and> length result = length (recorded ?r) \<and>
     i < length result \<and> sort (map fst (recorded ?r)) ! i = (- 1, 1) \<and>
     result ! i = \<lfloor>sqrt (real_of_int ((fst (0 :: int, 4 :: int) - fst (2 :: int, 2 :: int))\<^sup>2 +
        (snd (0 :: int, 4 :: int) - snd (2 :: int, 2 :: int))\<^sup>2))\<rfloor> \<and>
     (result ! i)\<^sup>2 \<le> (fst (0 :: int, 4 :: int) - fst (2 :: int, 2 :: int))\<^sup>2 +
        (snd (0 :: int, 4 :: int) - snd (2 :: int, 2 :: int))\<^sup>2 \<and>
     (fst (0 :: int, 4 :: int) - fst (2 :: int, 2 :: int))\<^sup>2 +
        (snd (0 :: int, 4 :: int) - snd (2 :: int, 2 :: int))\<^sup>2 < (result ! i + 1)\<^sup>2"
    by blast
  then have "nearest_rain met_eireann_rain_colours (2, 2) corners_image = Some ?r \<and>
     map_of (recorded ?r) (- 1, 1) = Some (0, 4) \<and> (8 :: int) < 2 ^ 52 \<and>
     outcome ?r = Inr result \<and> length result = 4 \<and> i < length result \<and>
     sort (map fst (recorded ?r)) ! i = (- 1, 1) \<and>
     result ! i = \<lfloor>sqrt (real_of_int 8)\<rfloor> \<and> (result ! i)\<^sup>2 \<le> 8 \<and> 8 < (result ! i + 1)\<^sup>2"
    using corners_run floor_sqrt_eq[of 2 8] by simp
  then show ?thesis by blast
qed

text \<open>
  C5, as it is worded, fails for far pixels. In \<open>far_image\<close> the only rain is at
  \<open>(72000000, 12000)\<close>, south-east of the centre \<open>(0, 0)\<close>. The exact distance is a little
  below 72000001, so its floor is 72000000; the square root rounded to a double is
  72000001, and that is what the call reports.
\<close>

theorem far_rain_rounds_up:
  "map_option recorded (nearest_rain met_eireann_rain_colours (0, 0) far_image) =
     Some [((1, 1), (72000000, 12000))] \<and>
   map_option outcome (nearest_rain met_eireann_rain_colours (0, 0) far_image) =
     Some (Inr [72000001]) \<and>
   \<lfloor>sqrt (real_of_int ((72000000 - 0)\<^sup>2 + (12000 - 0)\<^sup>2))\<rfloor> = (72000000 :: int)"
proof -
  let ?p = "(72000000, 12000) :: position"
  let ?pts = "concat (map (ring_cells (0, 0)) [1..max (width far_image) (height far_image)])"
  have px: "pixels far_image (0, 0) = Some dry"
    by (simp add: far_image_def)
  have pp: "pixels far_image ?p = Some wet"
    by (simp add: far_image_def)
  have others: "\<forall>q\<in>set ?pts. q \<noteq> ?p \<longrightarrow>
      (\<forall>c. pixels far_image q = Some c \<longrightarrow> c \<notin> set met_eireann_rain_colours)"
    using dry_no_rain by (auto simp: far_image_def split: if_splits)
  have "?p \<in> set (ring_cells (0, 0) 72000000)"
    by (simp add: in_ring_cells)
  then have there: "?p \<in> set ?pts"
    by (auto simp: far_image_def intro!: bexI[of _ 72000000])
  have f: "fst (scan met_eireann_rain_colours (pixels far_image) (0, 0) ?pts ([], [(0, 0)])) =
      [((1, 1), ?p)]"
    using scan_single[OF others there pp wet_rain, of "(0, 0)" "[(0, 0)]"]
    by (simp add: cmp_def)
  have "to_double (real_of_int 5184000144000000) = real_of_int 5184000144000000"
    by (rule to_double_of_int) simp_all
  then have d: "\<lfloor>distance ?p (0, 0)\<rfloor> = 72000001"
    using far_rounds_up by (simp add: distance_def)
  have e: "\<lfloor>sqrt (real_of_int ((72000000 - 0)\<^sup>2 + (12000 - 0)\<^sup>2))\<rfloor> = (72000000 :: int)"
    by (rule floor_sqrt_eq) simp_all
  show ?thesis
    using nearest_rain_scan[OF px dry_no_rain refl] e
    by (simp add: f d)
qed

subsection \<open>Rain on the row or the column of the centre\<close>

text \<open>
  C1 does not hold of the code. In \<open>west_image\<close> there is rain north-west, directly west
  and south-west of the centre \<open>(3, 3)\<close>. The pixel directly west gets the key \<open>(-1, 0)\<close>,
  is stored and is reported between NW and SW: the call returns \<open>[1, 2, 4]\<close>, where the
  distances of the quadrants in the order NW, SW, NE, SE are \<open>[1, 4]\<close>.
\<close>

theorem axis_rain_reported:
  "map_option recorded (nearest_rain met_eireann_rain_colours (3, 3) west_image) =
     Some [((- 1, - 1), (2, 2)), ((- 1, 0), (1, 3)), ((- 1, 1), (0, 6))] \<and>
   map_option outcome (nearest_rain met_eireann_rain_colours (3, 3) west_image) =
     Some (Inr [1, 2, 4]) \<and>
   in_quadrant_order [((- 1, - 1), (2, 2)), ((- 1, 0), (1, 3)), ((- 1, 1), (0, 6))] (3, 3) =
     [1, 4]"
proof -
  have px: "pixels west_image (3, 3) = Some dry"
    by (simp add: west_image_def raster_def)
  have d: "\<lfloor>distance (2, 2) (3, 3)\<rfloor> = 1" "\<lfloor>distance (1, 3) (3, 3)\<rfloor> = 2"
    "\<lfloor>distance (0, 6) (3, 3)\<rfloor> = 4"
    by (rule floor_distance; simp)+
  have f: "fst (scan met_eireann_rain_colours (pixels west_image) (3, 3)
      (concat (map (ring_cells (3, 3)) [1..max (width west_image) (height west_image)]))
      ([], [(3, 3)])) = [((- 1, - 1), (2, 2)), ((- 1, 0), (1, 3)), ((- 1, 1), (0, 6))]"
    by (simp add: image_eval west_image_def)
  show ?thesis
    using nearest_rain_scan[OF px dry_no_rain refl]
    by (simp add: f d in_quadrant_order_def)
qed

text \<open>
  C2 does not hold of the code. \<open>cross_image\<close> is \<open>corner_image\<close> with rain added directly
  north, west, east and south of the centre \<open>(2, 2)\<close>. These four pixels are stored under
  keys with a zero, they fill the dictionary, the scan stops in the first ring after eight
  reads, and the call returns their four distances; the rain in the north-west corner,
  which alone gives \<open>[2]\<close>, is never reached.
\<close>

theorem axis_rain_changes_result:
  "nearest_rain met_eireann_rain_colours (2, 2) cross_image =
     Some \<lparr>outcome = Inr [1, 1, 1, 1],
           reads = [(2, 2), (1, 1), (2, 1), (3, 1), (1, 2), (3, 2), (1, 3), (2, 3)],
           recorded = [((0, - 1), (2, 1)), ((- 1, 0), (1, 2)),
                       ((1, 0), (3, 2)), ((0, 1), (2, 3))]\<rparr> \<and>
   map_option outcome (nearest_rain met_eireann_rain_colours (2, 2) corner_image) =
     Some (Inr [2]) \<and>
   map_option recorded (nearest_rain met_eireann_rain_colours (2, 2) corner_image) =
     Some [((- 1, - 1), (0, 0))]"
proof -
  have px: "pixels cross_image (2, 2) = Some dry"
    by (simp add: cross_image_def raster_def)
  have px': "pixels corner_image (2, 2) = Some dry"
    by (simp add: corner_image_def raster_def)
  have d: "\<lfloor>distance (2, 1) (2, 2)\<rfloor> = 1" "\<lfloor>distance (1, 2) (2, 2)\<rfloor> = 1"
    "\<lfloor>distance (3, 2) (2, 2)\<rfloor> = 1" "\<lfloor>distance (2, 3) (2, 2)\<rfloor> = 1"
    "\<lfloor>distance (0, 0) (2, 2)\<rfloor> = 2"
    by (rule floor_distance; simp)+
  have s: "scan met_eireann_rain_colours (pixels cross_image) (2, 2)
      (concat (map (ring_cells (2, 2)) [1..max (width cross_image) (height cross_image)]))
      ([], [(2, 2)]) =
    ([((0, - 1), (2, 1)), ((- 1, 0), (1, 2)), ((1, 0), (3, 2)), ((0, 1), (2, 3))],
     [(2, 2), (1, 1), (2, 1), (3, 1), (1, 2), (3, 2), (1, 3), (2, 3)])"
    by (simp add: image_eval cross_image_def)
  have f: "fst (scan met_eireann_rain_colours (pixels corner_image) (2, 2)
      (concat (map (ring_cells (2, 2)) [1..max (width corner_image) (height corner_image)]))
      ([], [(2, 2)])) = [((- 1, - 1), (0, 0))]"
    by (simp add: image_eval corner_image_def)
  show ?thesis
    using nearest_rain_scan[OF px dry_no_rain s] nearest_rain_scan[OF px' dry_no_rain refl]
    by (simp add: f d)
qed

end
